theory Spec2Isabelle
  imports Complex_Main
begin

section \<open>Callables and tuples of callables\<close>

text \<open>
  The header \<^verbatim>\<open>alnr_functional.hpp\<close> composes arbitrary C++ callables that are kept
  in a \<^verbatim>\<open>std::tuple<Fs...>\<close>.  A callable is modelled as an object with data members
  (type \<open>'m\<close>) and a call operator.  The call operator receives the members, the argument
  list (values of one universal type \<open>'v\<close>) and the state of the rest of the program
  (\<open>'s\<close>: globals, streams, ...).  It yields the outcome of the call, the members after
  the call and the program state after the call.  The outcome \<open>Inl e\<close> is "the call
  threw \<open>e\<close>", the outcome \<open>Inr v\<close> is "the call returned \<open>v\<close>".

  The return type of a call operator is either a value type or a reference into the
  argument of the call, as for \<^verbatim>\<open>identity<>\<close>, \<^verbatim>\<open>select1st<>\<close> or \<^verbatim>\<open>project1st<>\<close>, whose
  bodies are \<^verbatim>\<open>std::forward\<close> or \<^verbatim>\<open>std::get\<close> of the argument.  The field
  \<open>returns_reference\<close> says which.  A stage that returns a reference to an object of its
  own or to a global is not distinguished from one that returns a value.

  The embedding is untyped at the level of stages: whether a stage accepts a given
  argument list is decided by the C++ compiler and is not part of the model, a stage is a
  total function on argument lists.  Copies made by forwarding and by the constructors
  are value-preserving and are not modelled.
\<close>

record ('v, 's, 'e, 'm) stage =
  members :: 'm
  body :: "'m \<Rightarrow> 'v list \<Rightarrow> 's \<Rightarrow> ('e + 'v) \<times> 'm \<times> 's"
  returns_reference :: bool

type_synonym ('v, 's, 'e, 'm) run = "('e + 'v) \<times> ('v, 's, 'e, 'm) stage list \<times> 's"

text \<open>The call expression \<^verbatim>\<open>f(args...)\<close> on a stage object \<open>f\<close>.\<close>

definition invoke_stage ::
  "('v, 's, 'e, 'm) stage \<Rightarrow> 'v list \<Rightarrow> 's \<Rightarrow> ('e + 'v) \<times> ('v, 's, 'e, 'm) stage \<times> 's" where
  "invoke_stage f argv s =
     (case body f (members f) argv s of (r, m', s') \<Rightarrow> (r, f\<lparr>members := m'\<rparr>, s'))"

text \<open>
  The call expression \<^verbatim>\<open>std::get<N>(tup)(args...)\<close>: the tuple is held by reference, so
  what the call does to the stage object is seen in the tuple afterwards.
\<close>

definition tuple_call ::
  "nat \<Rightarrow> ('v, 's, 'e, 'm) stage list \<Rightarrow> 'v list \<Rightarrow> 's \<Rightarrow> ('v, 's, 'e, 'm) run" where
  "tuple_call n tup argv s =
     (case invoke_stage (tup ! n) argv s of (r, f', s') \<Rightarrow> (r, tup[n := f'], s'))"


section \<open>Earlier revision: \<^verbatim>\<open>compose_l\<close> and \<^verbatim>\<open>compose_r\<close>\<close>

text \<open>
  In the earlier revision every helper and every call operator is declared with
  \<^verbatim>\<open>ALNR_RETURNS(expr)\<close>, that is \<^verbatim>\<open>-> decltype(expr) { return (expr); }\<close>: what a stage
  returns by reference is returned by reference, nothing is copied.  The result of a
  helper is therefore one of

  \<^item> \<open>Prvalue v\<close>: the value \<open>v\<close>, returned by value;
  \<^item> \<open>Reference v\<close>: a reference to an object with the value \<open>v\<close> that lies in the
    arguments of the helper and is alive after the helper has returned;
  \<^item> \<open>Dangling\<close>: a reference to a temporary object of a helper that was destroyed when
    that helper returned;
  \<^item> \<open>Undefined\<close>: a stage was called with a dangling reference as its argument.  The
    behaviour of the program is undefined as soon as the stage reads its argument; the
    model does not follow the invocation further and says nothing about the result, the
    stages and the program state after it.

  A value that a stage returns by value is a temporary object of the helper whose
  \<^verbatim>\<open>return\<close> statement contains the call; it lives until that statement has been
  evaluated.
\<close>

datatype 'v returned = Prvalue 'v | Reference 'v | Dangling | Undefined

type_synonym ('v, 's, 'e, 'm) run_returned =
  "('e + 'v returned) \<times> ('v, 's, 'e, 'm) stage list \<times> 's"

text \<open>
  \<^verbatim>\<open>detail::tuple_exec_ltr<N>::exec(tup, arg, args...)\<close>.  The template for \<open>N\<close> calls
  stage \<open>N\<close> on the result of the template for \<open>N - 1\<close>; the specialisation for \<open>0\<close> calls
  stage \<open>0\<close> on the arguments.  An exception of the inner call leaves the expression.
  The overloads for \<^verbatim>\<open>const Tuple&\<close> and \<^verbatim>\<open>Tuple&\<close> have the same body.

  All templates receive the arguments of the invocation, so a reference into the
  argument of stage \<open>0\<close> stays alive.  The result of the template for \<open>N - 1\<close>, when it is
  returned by value, is a temporary of the template for \<open>N\<close>: a reference into it that
  stage \<open>N\<close> returns dangles as soon as the template for \<open>N\<close> has returned.
\<close>

fun tuple_exec_ltr ::
  "nat \<Rightarrow> ('v, 's, 'e, 'm) stage list \<Rightarrow> 'v \<Rightarrow> 'v list \<Rightarrow> 's \<Rightarrow> ('v, 's, 'e, 'm) run_returned" where
  "tuple_exec_ltr 0 tup arg args s =
     (case tuple_call 0 tup (arg # args) s of
        (Inl e, tup', s') \<Rightarrow> (Inl e, tup', s')
      | (Inr v, tup', s') \<Rightarrow>
          (Inr (if returns_reference (tup ! 0) then Reference v else Prvalue v), tup', s'))"
| "tuple_exec_ltr (Suc n) tup arg args s =
     (case tuple_exec_ltr n tup arg args s of
        (Inl e, tup', s') \<Rightarrow> (Inl e, tup', s')
      | (Inr (Prvalue v), tup', s') \<Rightarrow>
          (case tuple_call (Suc n) tup' [v] s' of
             (Inl e, tup'', s'') \<Rightarrow> (Inl e, tup'', s'')
           | (Inr w, tup'', s'') \<Rightarrow>
               (Inr (if returns_reference (tup ! Suc n) then Dangling else Prvalue w), tup'', s''))
      | (Inr (Reference v), tup', s') \<Rightarrow>
          (case tuple_call (Suc n) tup' [v] s' of
             (Inl e, tup'', s'') \<Rightarrow> (Inl e, tup'', s'')
           | (Inr w, tup'', s'') \<Rightarrow>
               (Inr (if returns_reference (tup ! Suc n) then Reference w else Prvalue w), tup'', s''))
      | (Inr Dangling, tup', s') \<Rightarrow> (Inr Undefined, tup', s')
      | (Inr Undefined, tup', s') \<Rightarrow> (Inr Undefined, tup', s'))"

text \<open>
  \<^verbatim>\<open>detail::tuple_exec_rtl<N>::exec(tup, arg, args...)\<close>.  The template for \<open>N\<close> calls
  stage \<open>N\<close> on the arguments and hands the single result to the template for \<open>N - 1\<close>;
  the specialisation for \<open>0\<close> calls stage \<open>0\<close> on the arguments.

  The result of stage \<open>N\<close> is alive while the template for \<open>N - 1\<close> runs, so every stage
  is called on a live object.  If the template for \<open>N - 1\<close> returns a reference into its
  argument, that is into the result of stage \<open>N\<close>, then it is a reference into the
  arguments of the template for \<open>N\<close> when stage \<open>N\<close> returned a reference, and a
  reference to a temporary of the template for \<open>N\<close>, destroyed at its return, when stage
  \<open>N\<close> returned a value.
\<close>

fun tuple_exec_rtl ::
  "nat \<Rightarrow> ('v, 's, 'e, 'm) stage list \<Rightarrow> 'v \<Rightarrow> 'v list \<Rightarrow> 's \<Rightarrow> ('v, 's, 'e, 'm) run_returned" where
  "tuple_exec_rtl 0 tup arg args s =
     (case tuple_call 0 tup (arg # args) s of
        (Inl e, tup', s') \<Rightarrow> (Inl e, tup', s')
      | (Inr v, tup', s') \<Rightarrow>
          (Inr (if returns_reference (tup ! 0) then Reference v else Prvalue v), tup', s'))"
| "tuple_exec_rtl (Suc n) tup arg args s =
     (case tuple_call (Suc n) tup (arg # args) s of
        (Inl e, tup', s') \<Rightarrow> (Inl e, tup', s')
      | (Inr v, tup', s') \<Rightarrow>
          (case tuple_exec_rtl n tup' v [] s' of
             (Inr (Reference w), tup'', s'') \<Rightarrow>
               (Inr (if returns_reference (tup ! Suc n) then Reference w else Dangling), tup'', s'')
           | (r, tup'', s'') \<Rightarrow> (r, tup'', s'')))"

record ('v, 's, 'e, 'm) composed_ltr =
  fs :: "('v, 's, 'e, 'm) stage list"

record ('v, 's, 'e, 'm) composed_rtl =
  fs :: "('v, 's, 'e, 'm) stage list"

text \<open>
  \<^verbatim>\<open>composed_ltr::operator()(Arg&& arg, Args&&... args)\<close>.  The result \<open>None\<close> stands for
  a call expression that the compiler rejects: the operator has no overload without a
  first argument, and for an empty pack \<^verbatim>\<open>Fs\<close> the index \<^verbatim>\<open>sizeof...(Fs)-1\<close> names no
  element of the tuple.  The const and the non-const overload have the same body.
  The arguments of the helper are the arguments of the invocation: \<open>Reference v\<close> is a
  reference into an object of the caller.
\<close>

definition composed_ltr_invoke ::
  "('v, 's, 'e, 'm) composed_ltr \<Rightarrow> 'v list \<Rightarrow> 's \<Rightarrow>
   (('e + 'v returned) \<times> ('v, 's, 'e, 'm) composed_ltr \<times> 's) option" where
  "composed_ltr_invoke c argv s =
     (case argv of
        [] \<Rightarrow> None
      | arg # args \<Rightarrow>
          if composed_ltr.fs c = [] then None
          else (case tuple_exec_ltr (length (composed_ltr.fs c) - 1) (composed_ltr.fs c) arg args s of
                  (r, tup', s') \<Rightarrow> Some (r, c\<lparr>composed_ltr.fs := tup'\<rparr>, s')))"

text \<open>\<^verbatim>\<open>composed_rtl::operator()(Arg&& arg, Args&&... args)\<close>, with the same conventions.\<close>

definition composed_rtl_invoke ::
  "('v, 's, 'e, 'm) composed_rtl \<Rightarrow> 'v list \<Rightarrow> 's \<Rightarrow>
   (('e + 'v returned) \<times> ('v, 's, 'e, 'm) composed_rtl \<times> 's) option" where
  "composed_rtl_invoke c argv s =
     (case argv of
        [] \<Rightarrow> None
      | arg # args \<Rightarrow>
          if composed_rtl.fs c = [] then None
          else (case tuple_exec_rtl (length (composed_rtl.fs c) - 1) (composed_rtl.fs c) arg args s of
                  (r, tup', s') \<Rightarrow> Some (r, c\<lparr>composed_rtl.fs := tup'\<rparr>, s')))"

text \<open>
  \<^verbatim>\<open>compose_l(F f, Fs... fs)\<close> and \<^verbatim>\<open>compose_r(F f, Fs... fs)\<close>: the constructors store the
  stages in declaration order, nothing else happens.
\<close>

definition compose_l ::
  "('v, 's, 'e, 'm) stage \<Rightarrow> ('v, 's, 'e, 'm) stage list \<Rightarrow> ('v, 's, 'e, 'm) composed_ltr" where
  "compose_l f gs = \<lparr>composed_ltr.fs = f # gs\<rparr>"

definition compose_r ::
  "('v, 's, 'e, 'm) stage \<Rightarrow> ('v, 's, 'e, 'm) stage list \<Rightarrow> ('v, 's, 'e, 'm) composed_rtl" where
  "compose_r f gs = \<lparr>composed_rtl.fs = f # gs\<rparr>"


section \<open>Later revision: \<^verbatim>\<open>compose\<close>\<close>


fun tuple_exec_rtl2 ::
  "nat \<Rightarrow> ('v, 's, 'e, 'm) stage list \<Rightarrow> 'v \<Rightarrow> 'v list \<Rightarrow> 's \<Rightarrow> ('v, 's, 'e, 'm) run" where
  "tuple_exec_rtl2 0 tup arg args s = tuple_call 0 tup (arg # args) s"
| "tuple_exec_rtl2 (Suc n) tup arg args s =
     (case tuple_call (Suc n) tup (arg # args) s of
        (Inl e, tup', s') \<Rightarrow> (Inl e, tup', s')
      | (Inr v, tup', s') \<Rightarrow> tuple_exec_rtl2 n tup' v [] s')"

record ('v, 's, 'e, 'm) composed =
  fs :: "('v, 's, 'e, 'm) stage list"

text \<open>
  \<^verbatim>\<open>composed::operator()(Arg&& arg, Args&&... args)\<close>; \<open>None\<close> is again a call expression
  that does not compile.
\<close>

definition composed_invoke ::
  "('v, 's, 'e, 'm) composed \<Rightarrow> 'v list \<Rightarrow> 's \<Rightarrow>
   (('e + 'v) \<times> ('v, 's, 'e, 'm) composed \<times> 's) option" where
  "composed_invoke c argv s =
     (case argv of
        [] \<Rightarrow> None
      | arg # args \<Rightarrow>
          if composed.fs c = [] then None
          else (case tuple_exec_rtl2 (length (composed.fs c) - 1) (composed.fs c) arg args s of
                  (r, tup', s') \<Rightarrow> Some (r, c\<lparr>composed.fs := tup'\<rparr>, s')))"

definition compose ::
  "('v, 's, 'e, 'm) stage \<Rightarrow> ('v, 's, 'e, 'm) stage list \<Rightarrow> ('v, 's, 'e, 'm) composed" where
  "compose f gs = \<lparr>composed.fs = f # gs\<rparr>"


section \<open>Stages used in examples\<close>

text \<open>
  A stateless function object without effects (a plain function, a captureless lambda)
  that computes \<open>F\<close> from its argument list and returns it by value.
\<close>

definition function_object :: "('v list \<Rightarrow> 'v) \<Rightarrow> ('v, 's, 'e, unit) stage" where
  "function_object F =
     \<lparr>members = (), body = (\<lambda>m argv s. (Inr (F argv), m, s)), returns_reference = False\<rparr>"

text \<open>A function object that can be called without arguments and returns \<open>c\<close>.\<close>

definition nullary :: "'v \<Rightarrow> ('v, 's, 'e, unit) stage" where
  "nullary c = function_object (\<lambda>argv. c)"

text \<open>
  \<^verbatim>\<open>identity<>\<close> of the library: its call operator takes one argument and returns
  \<^verbatim>\<open>std::forward<T1>(t1)\<close> with the return type \<^verbatim>\<open>decltype(std::forward<T1>(t1))\<close>, a
  reference to its argument.
\<close>

definition identity :: "('v, 's, 'e, unit) stage" where
  "identity =
     \<lparr>members = (), body = (\<lambda>m argv s. (Inr (case argv of [t1] \<Rightarrow> t1), m, s)),
      returns_reference = True\<rparr>"

text \<open>
  Negation as in \<^verbatim>\<open>std::negate<int>()\<close> of the usage comment and a squaring function, both
  returning by value, and a callable whose call always throws \<open>e\<close>.  The two functions
  are taken on the mathematical integers: the overflow of \<^verbatim>\<open>int\<close> is not modelled, and they
  are used on small numbers only.
\<close>

definition negate_int :: "(int, 's, 'e, unit) stage" where
  "negate_int = function_object (\<lambda>argv. case argv of [x] \<Rightarrow> - x)"

definition square_int :: "(int, 's, 'e, unit) stage" where
  "square_int = function_object (\<lambda>argv. case argv of [x] \<Rightarrow> x * x)"

definition throwing :: "'e \<Rightarrow> ('v, 's, 'e, unit) stage" where
  "throwing e =
     \<lparr>members = (), body = (\<lambda>m argv s. (Inl e, m, s)), returns_reference = False\<rparr>"



text \<open>
  The function objects of namespace \<^verbatim>\<open>math\<close> are generated by two macros:
  \<^verbatim>\<open>ALNR_UNARY_FUNCTOR(name)\<close> forwards one argument to \<^verbatim>\<open>std::name\<close>,
  \<^verbatim>\<open>ALNR_BINARY_FUNCTOR(name)\<close> forwards two.  The function of the standard library is a
  parameter; the functions used here return by value.  A call with another number of
  arguments does not compile; the model says nothing about it.
\<close>

definition ALNR_UNARY_FUNCTOR :: "('v \<Rightarrow> 'v) \<Rightarrow> ('v, 's, 'e, unit) stage" where
  "ALNR_UNARY_FUNCTOR std_name =
     \<lparr>members = (), body = (\<lambda>m argv s. case argv of [t] \<Rightarrow> (Inr (std_name t), m, s)),
      returns_reference = False\<rparr>"

definition ALNR_BINARY_FUNCTOR :: "('v \<Rightarrow> 'v \<Rightarrow> 'v) \<Rightarrow> ('v, 's, 'e, unit) stage" where
  "ALNR_BINARY_FUNCTOR std_name =
     \<lparr>members = (), body = (\<lambda>m argv s. case argv of [t, u] \<Rightarrow> (Inr (std_name t u), m, s)),
      returns_reference = False\<rparr>"

text \<open>
  \<^verbatim>\<open>math::abs<>\<close> and \<^verbatim>\<open>math::hypot<>\<close> on \<^verbatim>\<open>double\<close>, read over the real numbers:
  \<^verbatim>\<open>std::abs\<close> is the absolute value and \<^verbatim>\<open>std::hypot(x, y)\<close> is the square root of
  \<open>x\<^sup>2 + y\<^sup>2\<close>.
\<close>

definition abs_fn :: "(real, 's, 'e, unit) stage" where
  "abs_fn = ALNR_UNARY_FUNCTOR abs"

definition hypot_fn :: "(real, 's, 'e, unit) stage" where
  "hypot_fn = ALNR_BINARY_FUNCTOR (\<lambda>x y. sqrt (x\<^sup>2 + y\<^sup>2))"


section \<open>Pure stages\<close>



section \<open>Recording the calls of the stages\<close>

text \<open>
  To speak about which stages run, in which order and on what, a stage is wrapped by a
  recorder.  The program state gets a log in front; every call of the wrapped stage \<open>k\<close>
  appends one event to the log: the index of the stage, the argument list it received,
  the program state it started in, the outcome of the call and the program state it left.
  Apart from that the wrapped stage behaves as the stage.
\<close>

record ('v, 's, 'e) event =
  stage_index :: nat
  arguments :: "'v list"
  state_before :: 's
  outcome :: "'e + 'v"
  state_after :: 's

definition traced ::
  "nat \<Rightarrow> ('v, 's, 'e, 'm) stage \<Rightarrow> ('v, ('v, 's, 'e) event list \<times> 's, 'e, 'm) stage" where
  "traced k f =
     \<lparr>members = members f,
      body = (\<lambda>m argv (tr, s).
        case body f m argv s of
          (r, m', s') \<Rightarrow>
            (r, m', (tr @ [\<lparr>stage_index = k, arguments = argv, state_before = s,
                             outcome = r, state_after = s'\<rparr>], s'))),
      returns_reference = returns_reference f\<rparr>"

text \<open>The stages \<open>gs\<close>, wrapped with the indices \<open>k\<close>, \<open>k + 1\<close>, ...\<close>

definition traced_from ::
  "nat \<Rightarrow> ('v, 's, 'e, 'm) stage list \<Rightarrow>
   ('v, ('v, 's, 'e) event list \<times> 's, 'e, 'm) stage list" where
  "traced_from k gs = map (\<lambda>(i, g). traced i g) (enumerate k gs)"

text \<open>
  A log is chained when every call but the last returned a value, the next call received
  exactly that value as its single argument, and started in the program state that the
  call before it left: nothing happened between two calls.
\<close>

fun chained :: "('v, 's, 'e) event list \<Rightarrow> bool" where
  "chained (a # b # evs) \<longleftrightarrow>
     (case outcome a of Inl e \<Rightarrow> False | Inr v \<Rightarrow> arguments b = [v])
     \<and> state_after a = state_before b \<and> chained (b # evs)"
| "chained evs \<longleftrightarrow> True"


section \<open>The nested call expressions of the composition laws\<close>

text \<open>
  The right-leaning law is stated with the expression \<^verbatim>\<open>f(g(h(x)))\<close>.  For the stage
  \<open>f\<close> followed by the stages \<open>gs\<close> this expression is \<open>f\<close> applied to the value of the
  nested expression of \<open>gs\<close>; the innermost stage receives the whole argument list.  An
  exception of an inner call leaves the expression, the outer calls are not made.
\<close>

fun nested_rtl ::
  "('v, 's, 'e, 'm) stage \<Rightarrow> ('v, 's, 'e, 'm) stage list \<Rightarrow> 'v list \<Rightarrow> 's \<Rightarrow> ('v, 's, 'e, 'm) run" where
  "nested_rtl f [] argv s = (case invoke_stage f argv s of (r, f', s') \<Rightarrow> (r, [f'], s'))"
| "nested_rtl f (g # gs) argv s =
     (case nested_rtl g gs argv s of
        (Inl e, gs', s') \<Rightarrow> (Inl e, f # gs', s')
      | (Inr v, gs', s') \<Rightarrow> (case invoke_stage f [v] s' of (r, f', s'') \<Rightarrow> (r, f' # gs', s'')))"

text \<open>
  The left-leaning law is stated with \<^verbatim>\<open>h(g(f(x)))\<close>: the first stage receives the
  argument list, its value is fed through the remaining stages from left to right.
\<close>

fun feed_ltr ::
  "('v, 's, 'e, 'm) stage list \<Rightarrow> 'v \<Rightarrow> 's \<Rightarrow> ('v, 's, 'e, 'm) run" where
  "feed_ltr [] v s = (Inr v, [], s)"
| "feed_ltr (g # gs) v s =
     (case invoke_stage g [v] s of
        (Inl e, g', s') \<Rightarrow> (Inl e, g' # gs, s')
      | (Inr w, g', s') \<Rightarrow> (case feed_ltr gs w s' of (r, gs', s'') \<Rightarrow> (r, g' # gs', s'')))"

definition nested_ltr ::
  "('v, 's, 'e, 'm) stage \<Rightarrow> ('v, 's, 'e, 'm) stage list \<Rightarrow> 'v list \<Rightarrow> 's \<Rightarrow> ('v, 's, 'e, 'm) run" where
  "nested_ltr f gs argv s =
     (case invoke_stage f argv s of
        (Inl e, f', s') \<Rightarrow> (Inl e, f' # gs, s')
      | (Inr v, f', s') \<Rightarrow> (case feed_ltr gs v s' of (r, gs', s'') \<Rightarrow> (r, f' # gs', s'')))"


section \<open>Calls through the tuple\<close>

lemma invoke_stage_function_object:
  "invoke_stage (function_object F) argv s = (Inr (F argv), function_object F, s)"
  by (simp add: invoke_stage_def function_object_def)

lemma length_tuple_call [simp]:
  "tuple_call n tup argv s = (r, tup', s') \<Longrightarrow> length tup' = length tup"
  by (auto simp: tuple_call_def split: prod.splits)

lemma tuple_call_Cons_Suc:
  "tuple_call (Suc n) (f # gs) argv s =
     (case tuple_call n gs argv s of (r, gs', s') \<Rightarrow> (r, f # gs', s'))"
  by (simp add: tuple_call_def split: prod.splits)

lemma tuple_call_Cons_0:
  "tuple_call 0 (f # gs) argv s =
     (case invoke_stage f argv s of (r, f', s') \<Rightarrow> (r, f' # gs, s'))"
  by (simp add: tuple_call_def split: prod.splits)

lemma returns_reference_tuple_call:
  "tuple_call n tup argv s = (r, tup', s') \<Longrightarrow>
   map returns_reference tup' = map returns_reference tup"
proof -
  have "(map returns_reference tup)[n := returns_reference (tup ! n)] = map returns_reference tup"
    by (cases "n < length tup") (simp_all add: list_update_same_conv list_update_beyond)
  then show "tuple_call n tup argv s = (r, tup', s') \<Longrightarrow>
      map returns_reference tup' = map returns_reference tup"
    by (auto simp: tuple_call_def invoke_stage_def map_update split: prod.splits)
qed

lemma returns_reference_nth_tuple_call:
  assumes "tuple_call n tup argv s = (r, tup', s')" and "k < length tup"
  shows "returns_reference (tup' ! k) = returns_reference (tup ! k)"
proof -
  have m: "map returns_reference tup' = map returns_reference tup"
    by (rule returns_reference_tuple_call [OF assms(1)])
  have l: "length tup' = length tup" by (rule length_tuple_call [OF assms(1)])
  have "returns_reference (tup' ! k) = map returns_reference tup' ! k"
    using assms(2) l by simp
  also have "\<dots> = map returns_reference tup ! k" by (simp only: m)
  also have "\<dots> = returns_reference (tup ! k)" using assms(2) by simp
  finally show ?thesis .
qed


lemma length_tuple_exec_rtl2:
  "tuple_exec_rtl2 n tup arg args s = (r, tup', s') \<Longrightarrow> length tup' = length tup"
proof (induction n arbitrary: tup arg args s)
  case 0
  then show ?case by simp
next
  case (Suc n)
  obtain r0 tup0 s0 where c: "tuple_call (Suc n) tup (arg # args) s = (r0, tup0, s0)"
    by (cases "tuple_call (Suc n) tup (arg # args) s") auto
  have l: "length tup0 = length tup" by (rule length_tuple_call [OF c])
  show ?case
  proof (cases r0)
    case (Inl e)
    then show ?thesis using Suc.prems c l by simp
  next
    case (Inr v)
    then have "tuple_exec_rtl2 n tup0 v [] s0 = (r, tup', s')"
      using Suc.prems c by simp
    then have "length tup' = length tup0" by (rule Suc.IH)
    then show ?thesis using l by simp
  qed
qed


text \<open>
  The definitions that evaluate an invocation on given stages.
\<close>

lemmas run_simps = composed_invoke_def composed_ltr_invoke_def composed_rtl_invoke_def
  compose_def compose_l_def compose_r_def tuple_call_def invoke_stage_def traced_def
  function_object_def


section \<open>The right-leaning law\<close>

lemma tuple_exec_rtl2_Cons:
  "tuple_exec_rtl2 (Suc n) (f # gs) arg args s =
     (case tuple_exec_rtl2 n gs arg args s of
        (Inl e, gs', s') \<Rightarrow> (Inl e, f # gs', s')
      | (Inr v, gs', s') \<Rightarrow> (case invoke_stage f [v] s' of (r, f', s'') \<Rightarrow> (r, f' # gs', s'')))"
proof (induction n arbitrary: gs arg args s)
  case 0
  obtain r gs' s' where tc: "tuple_call 0 gs (arg # args) s = (r, gs', s')"
    by (cases "tuple_call 0 gs (arg # args) s") auto
  show ?case
    by (cases r) (simp_all add: tc tuple_call_Cons_Suc tuple_call_Cons_0)
next
  case (Suc n)
  obtain r gs' s' where tc: "tuple_call (Suc n) gs (arg # args) s = (r, gs', s')"
    by (cases "tuple_call (Suc n) gs (arg # args) s") auto
  show ?case
  proof (cases r)
    case (Inl e)
    then show ?thesis
      using tc by (simp add: tuple_call_Cons_Suc)
  next
    case (Inr v)
    have "tuple_exec_rtl2 (Suc (Suc n)) (f # gs) arg args s = tuple_exec_rtl2 (Suc n) (f # gs') v [] s'"
      using tc Inr by (simp add: tuple_call_Cons_Suc)
    also have "\<dots> = (case tuple_exec_rtl2 n gs' v [] s' of
        (Inl e, gs'', s'') \<Rightarrow> (Inl e, f # gs'', s'')
      | (Inr w, gs'', s'') \<Rightarrow> (case invoke_stage f [w] s'' of (r, f', s''') \<Rightarrow> (r, f' # gs'', s''')))"
      by (rule Suc.IH)
    also have "\<dots> = (case tuple_exec_rtl2 (Suc n) gs arg args s of
        (Inl e, gs'', s'') \<Rightarrow> (Inl e, f # gs'', s'')
      | (Inr w, gs'', s'') \<Rightarrow> (case invoke_stage f [w] s'' of (r, f', s''') \<Rightarrow> (r, f' # gs'', s''')))"
      using tc Inr by simp
    finally show ?thesis .
  qed
qed

lemma tuple_exec_rtl2_nested:
  "tuple_exec_rtl2 (length gs) (f # gs) arg args s = nested_rtl f gs (arg # args) s"
proof (induction gs arbitrary: f)
  case Nil
  show ?case by (simp add: tuple_call_Cons_0)
next
  case (Cons g gs)
  have "tuple_exec_rtl2 (length (g # gs)) (f # g # gs) arg args s =
     (case tuple_exec_rtl2 (length gs) (g # gs) arg args s of
        (Inl e, gs', s') \<Rightarrow> (Inl e, f # gs', s')
      | (Inr v, gs', s') \<Rightarrow> (case invoke_stage f [v] s' of (r, f', s'') \<Rightarrow> (r, f' # gs', s'')))"
    using tuple_exec_rtl2_Cons [of "length gs" f "g # gs" arg args s] by simp
  then show ?case by (simp add: Cons.IH)
qed

lemma composed_invoke_compose:
  "composed_invoke (compose f gs) (arg # args) s =
     (case nested_rtl f gs (arg # args) s of (r, tup', s') \<Rightarrow> Some (r, \<lparr>composed.fs = tup'\<rparr>, s'))"
  by (simp add: composed_invoke_def compose_def tuple_exec_rtl2_nested)

text \<open>
  C1: the right-leaning composition law.  Invoking \<^verbatim>\<open>compose(f, gs...)\<close> on at least one
  argument is the nested call expression of its stages: the last-declared stage runs
  first on the raw arguments, each preceding stage consumes the single result of the
  next-later stage, and the outcome is that of the first-declared stage (or the exception
  that ended the evaluation).  For three function objects this is
  \<^verbatim>\<open>compose(f, g, h)(x) == f(g(h(x)))\<close>.
\<close>

theorem compose_right_leaning:
  "composed_invoke (compose f gs) (arg # args) s =
     (case nested_rtl f gs (arg # args) s of (r, tup', s') \<Rightarrow> Some (r, \<lparr>composed.fs = tup'\<rparr>, s'))
  \<and> map_option fst (composed_invoke (compose (function_object F)
         [function_object G, function_object H]) [x] s) = Some (Inr (F [G [H [x]]]))"
  by (simp add: composed_invoke_compose invoke_stage_function_object)


section \<open>The left-leaning law\<close>

text \<open>
  C3: the left-leaning composition law, \<^verbatim>\<open>compose_l(f, g, h)(x) == h(g(f(x)))\<close>, in which
  the result of the last-declared stage is the overall result.  The law fails in the code
  when a stage after the first returns a reference into its argument.  By the law
  \<^verbatim>\<open>compose_l(std::negate<int>(), identity<>())(7)\<close> is \<^verbatim>\<open>identity(negate(7))\<close>, the value
  \<open>-7\<close>.  In the code the result of \<^verbatim>\<open>negate\<close> is a temporary object of
  \<^verbatim>\<open>tuple_exec_ltr<1>::exec\<close>, \<^verbatim>\<open>identity<>\<close> returns a reference to it, and the helper,
  declared with \<^verbatim>\<open>decltype\<close> of its expression, returns that reference when the temporary has
  been destroyed: the invocation yields a dangling reference, with the stages and the
  program state the law gives.  The same happens with every function object that returns
  by value in the place of \<^verbatim>\<open>negate\<close>, on every argument list and in every program state.
\<close>

theorem compose_l_dangling_reference:
  "composed_ltr_invoke (compose_l negate_int [identity]) [7] () =
     Some (Inr Dangling, compose_l negate_int [identity], ())
   \<and> nested_ltr negate_int [identity] [7] () = (Inr (- 7), [negate_int, identity], ())
   \<and> map_option fst (composed_ltr_invoke (compose_l (function_object F) [identity]) (x # xs) s) =
     Some (Inr Dangling)
   \<and> fst (nested_ltr (function_object F) [identity] (x # xs) s) = Inr (F (x # xs))"
  by (simp add: composed_ltr_invoke_def compose_l_def tuple_call_def invoke_stage_def
      nested_ltr_def function_object_def negate_int_def identity_def)


section \<open>The terminal stage receives the arguments\<close>

lemma nested_rtl_snoc:
  "nested_rtl f (gs @ [h]) argv s =
     (case invoke_stage h argv s of
        (Inl e, h', s') \<Rightarrow> (Inl e, f # gs @ [h'], s')
      | (Inr v, h', s') \<Rightarrow>
          (case nested_rtl f gs [v] s' of (r, tup', s'') \<Rightarrow> (r, tup' @ [h'], s'')))"
proof (induction gs arbitrary: f)
  case Nil
  obtain r h' s' where i: "invoke_stage h argv s = (r, h', s')"
    by (cases "invoke_stage h argv s") auto
  show ?case using i by (cases r) (simp_all split: prod.splits)
next
  case (Cons g gs)
  obtain r h' s' where i: "invoke_stage h argv s = (r, h', s')"
    by (cases "invoke_stage h argv s") auto
  show ?case
  proof (cases r)
    case (Inl e)
    then show ?thesis using i Cons.IH [of g] by simp
  next
    case (Inr v)
    obtain r2 tup2 s2 where n: "nested_rtl g gs [v] s' = (r2, tup2, s2)"
      by (cases "nested_rtl g gs [v] s'") auto
    show ?thesis
      using i Inr n Cons.IH [of g] by (cases r2) (simp_all split: prod.splits)
  qed
qed

text \<open>
  C2: arity pass-through.  An invocation of \<^verbatim>\<open>compose(f, gs..., h)\<close> with the arguments
  \<open>arg, args...\<close> starts with the call of the terminal stage \<open>h\<close> on exactly the list
  \<open>arg # args\<close>: every argument, in the order given.  If that call throws, this is the
  outcome; otherwise the composition of the remaining stages is invoked on its single
  result.  For a composition of one stage the stage itself receives the list.  In
  particular \<^verbatim>\<open>compose(abs_fn, hypot_fn)(x, y)\<close> is \<^verbatim>\<open>abs(hypot(x, y))\<close> whatever the two
  library functions are, and over the real numbers
  \<^verbatim>\<open>compose(abs_fn, hypot_fn)(3.0, -4.0) == 5.0\<close>.
\<close>

theorem arity_pass_through:
  "composed_invoke (compose f (gs @ [h])) (arg # args) s =
     (case invoke_stage h (arg # args) s of
        (Inl e, h', s') \<Rightarrow> Some (Inl e, compose f (gs @ [h']), s')
      | (Inr v, h', s') \<Rightarrow>
          map_option (\<lambda>(r, c, s''). (r, c\<lparr>composed.fs := composed.fs c @ [h']\<rparr>, s''))
            (composed_invoke (compose f gs) [v] s'))
   \<and> composed_invoke (compose h []) (arg # args) s =
     (case invoke_stage h (arg # args) s of (r, h', s') \<Rightarrow> Some (r, compose h' [], s'))
   \<and> map_option fst (composed_invoke
        (compose (ALNR_UNARY_FUNCTOR std_abs) [ALNR_BINARY_FUNCTOR std_hypot]) [x, y] s0) =
      Some (Inr (std_abs (std_hypot x y)))
   \<and> map_option fst (composed_invoke (compose abs_fn [hypot_fn]) [3, - 4] s1) = Some (Inr 5)"
proof -
  obtain r h' s' where i: "invoke_stage h (arg # args) s = (r, h', s')"
    by (cases "invoke_stage h (arg # args) s") auto
  have a: "composed_invoke (compose f (gs @ [h])) (arg # args) s =
     (case invoke_stage h (arg # args) s of
        (Inl e, h', s') \<Rightarrow> Some (Inl e, compose f (gs @ [h']), s')
      | (Inr v, h', s') \<Rightarrow>
          map_option (\<lambda>(r, c, s''). (r, c\<lparr>composed.fs := composed.fs c @ [h']\<rparr>, s''))
            (composed_invoke (compose f gs) [v] s'))"
    unfolding composed_invoke_compose nested_rtl_snoc using i
    by (cases r) (simp_all add: compose_def split: prod.splits)
  have b: "composed_invoke (compose h []) (arg # args) s =
     (case invoke_stage h (arg # args) s of (r, h', s') \<Rightarrow> Some (r, compose h' [], s'))"
    unfolding composed_invoke_compose by (simp add: compose_def split: prod.splits)
  have c: "map_option fst (composed_invoke
        (compose (ALNR_UNARY_FUNCTOR std_abs) [ALNR_BINARY_FUNCTOR std_hypot]) [x, y] s0) =
      Some (Inr (std_abs (std_hypot x y)))"
    by (simp add: composed_invoke_compose invoke_stage_def
        ALNR_UNARY_FUNCTOR_def ALNR_BINARY_FUNCTOR_def)
  have d: "map_option fst (composed_invoke (compose abs_fn [hypot_fn]) [3, - 4] s1) = Some (Inr 5)"
    by (simp add: composed_invoke_compose invoke_stage_def abs_fn_def hypot_fn_def
        ALNR_UNARY_FUNCTOR_def ALNR_BINARY_FUNCTOR_def)
  from a b c d show ?thesis by blast
qed


section \<open>The two revisions\<close>

lemma tuple_exec_rtl_eq_rtl2:
  assumes "n < length tup"
  shows "tuple_exec_rtl n tup arg args s =
     (case tuple_exec_rtl2 n tup arg args s of
        (Inl e, tup', s') \<Rightarrow> (Inl e, tup', s')
      | (Inr v, tup', s') \<Rightarrow>
          (Inr (if returns_reference (tup ! 0)
                then (if (\<forall>k. 1 \<le> k \<and> k \<le> n \<longrightarrow> returns_reference (tup ! k))
                      then Reference v else Dangling)
                else Prvalue v), tup', s'))"
  using assms
proof (induction n arbitrary: tup arg args s)
  case 0
  show ?case by (simp split: prod.splits sum.splits)
next
  case (Suc n)
  obtain r0 tup0 s0 where c: "tuple_call (Suc n) tup (arg # args) s = (r0, tup0, s0)"
    by (cases "tuple_call (Suc n) tup (arg # args) s") auto
  have l: "length tup0 = length tup" by (rule length_tuple_call [OF c])
  have flags: "returns_reference (tup0 ! k) = returns_reference (tup ! k)" if "k < length tup" for k
    by (rule returns_reference_nth_tuple_call [OF c that])
  show ?case
  proof (cases r0)
    case (Inl e)
    then show ?thesis using c by simp
  next
    case (Inr v)
    have n: "n < length tup0" using Suc.prems l by simp
    obtain r1 tup1 s1 where x: "tuple_exec_rtl2 n tup0 v [] s0 = (r1, tup1, s1)"
      by (cases "tuple_exec_rtl2 n tup0 v [] s0") auto
    have "0 < length tup" using Suc.prems by (cases tup) simp_all
    then have f0: "returns_reference (tup0 ! 0) = returns_reference (tup ! 0)"
      by (rule flags)
    have fn: "(\<forall>k. 1 \<le> k \<and> k \<le> n \<longrightarrow> returns_reference (tup0 ! k)) =
        (\<forall>k. 1 \<le> k \<and> k \<le> n \<longrightarrow> returns_reference (tup ! k))"
      using flags Suc.prems by auto
    have split: "(\<forall>k. 1 \<le> k \<and> k \<le> Suc n \<longrightarrow> returns_reference (tup ! k)) =
        ((\<forall>k. 1 \<le> k \<and> k \<le> n \<longrightarrow> returns_reference (tup ! k)) \<and> returns_reference (tup ! Suc n))"
      by (auto simp: le_Suc_eq)
    have ih: "tuple_exec_rtl n tup0 v [] s0 =
       (case r1 of
          Inl e \<Rightarrow> (Inl e, tup1, s1)
        | Inr w \<Rightarrow>
          (Inr (if returns_reference (tup ! 0)
                then (if (\<forall>k. 1 \<le> k \<and> k \<le> n \<longrightarrow> returns_reference (tup ! k))
                      then Reference w else Dangling)
                else Prvalue w), tup1, s1))"
      using Suc.IH [OF n, of v "[]" s0] x f0 fn by (simp split: sum.splits)
    show ?thesis
      using c Inr x ih split by (cases r1) auto
  qed
qed

lemma composed_rtl_invoke_compose_r:
  "map_option (\<lambda>(r, c, s'). (r, composed_rtl.fs c, s')) (composed_rtl_invoke (compose_r f gs) argv s) =
   map_option (\<lambda>(r, c, s').
       (map_sum id (\<lambda>v. if returns_reference f
                         then (if list_all returns_reference gs then Reference v else Dangling)
                         else Prvalue v) r,
        composed.fs c, s'))
     (composed_invoke (compose f gs) argv s)"
proof (cases argv)
  case Nil
  then show ?thesis by (simp add: composed_rtl_invoke_def composed_invoke_def)
next
  case (Cons arg args)
  have all: "(\<forall>k. 1 \<le> k \<and> k \<le> length gs \<longrightarrow> returns_reference ((f # gs) ! k)) =
      list_all returns_reference gs"
  proof
    assume a: "\<forall>k. 1 \<le> k \<and> k \<le> length gs \<longrightarrow> returns_reference ((f # gs) ! k)"
    show "list_all returns_reference gs"
      unfolding list_all_length
    proof (intro allI impI)
      fix i assume "i < length gs"
      then show "returns_reference (gs ! i)" using a [rule_format, of "Suc i"] by simp
    qed
  next
    assume a: "list_all returns_reference gs"
    show "\<forall>k. 1 \<le> k \<and> k \<le> length gs \<longrightarrow> returns_reference ((f # gs) ! k)"
    proof (intro allI impI)
      fix k assume k: "1 \<le> k \<and> k \<le> length gs"
      then obtain i where "k = Suc i" by (cases k) auto
      then show "returns_reference ((f # gs) ! k)"
        using a k by (simp add: list_all_length)
    qed
  qed
  have "length gs < length (f # gs)" by simp
  note eq = tuple_exec_rtl_eq_rtl2 [OF this, of arg args s]
  show ?thesis
    using Cons eq all
    by (simp add: composed_rtl_invoke_def composed_invoke_def compose_r_def compose_def
        split: prod.splits sum.splits)
qed

text \<open>
  C4: the earlier revision's \<^verbatim>\<open>compose_r\<close> and the later revision's \<^verbatim>\<open>compose\<close> on the
  same stages, the same argument list and the same program state.  Both invocations are
  rejected, or both are made; they throw the same exception or both return, and they
  leave the same stages and the same program state.  They differ in what is returned.
  Where \<^verbatim>\<open>compose\<close> returns the value \<open>v\<close>, \<^verbatim>\<open>compose_r\<close> returns \<open>v\<close> by value when the
  first-declared stage returns by value, a reference to a live object with the value \<open>v\<close>
  when all stages return references into their arguments, and a dangling reference when
  the first-declared stage returns a reference and some other stage returns by value.
  So the two revisions do not yield the same result on
  \<^verbatim>\<open>(identity<>(), std::negate<int>())\<close> invoked on \<open>7\<close>: \<^verbatim>\<open>compose_r\<close> yields a reference to
  the destroyed result of \<^verbatim>\<open>negate\<close>, \<^verbatim>\<open>compose\<close> yields \<open>-7\<close>.
\<close>

theorem compose_r_dangling_reference:
  "map_option (\<lambda>(r, c, s'). (r, composed_rtl.fs c, s')) (composed_rtl_invoke (compose_r f gs) argv s) =
   map_option (\<lambda>(r, c, s').
       (map_sum id (\<lambda>v. if returns_reference f
                         then (if list_all returns_reference gs then Reference v else Dangling)
                         else Prvalue v) r,
        composed.fs c, s'))
     (composed_invoke (compose f gs) argv s)
   \<and> composed_rtl_invoke (compose_r identity [negate_int]) [7] () =
     Some (Inr Dangling, compose_r identity [negate_int], ())
   \<and> composed_invoke (compose identity [negate_int]) [7] () =
     Some (Inr (- 7), compose identity [negate_int], ())"
proof -
  have a: "composed_rtl_invoke (compose_r identity [negate_int]) [7] () =
     Some (Inr Dangling, compose_r identity [negate_int], ())"
    by (simp add: composed_rtl_invoke_def compose_r_def tuple_call_def invoke_stage_def
        function_object_def negate_int_def identity_def)
  have b: "composed_invoke (compose identity [negate_int]) [7] () =
     Some (Inr (- 7), compose identity [negate_int], ())"
    by (simp add: composed_invoke_def compose_def tuple_call_def invoke_stage_def
        function_object_def negate_int_def identity_def)
  from composed_rtl_invoke_compose_r [of f gs argv s] a b show ?thesis by blast
qed


section \<open>An invocation needs an argument\<close>

text \<open>
  C10: the call operators of \<^verbatim>\<open>composed\<close>, \<^verbatim>\<open>composed_rtl\<close> and \<^verbatim>\<open>composed_ltr\<close> are
  declared with a first argument.  An invocation with an empty argument list is rejected
  for every composition value, whatever its first-executing stage accepts, and an
  invocation of a composition built by \<^verbatim>\<open>compose\<close>, \<^verbatim>\<open>compose_r\<close> or \<^verbatim>\<open>compose_l\<close> is
  rejected exactly when the argument list is empty.
\<close>

theorem invocation_needs_an_argument:
  "composed_invoke c [] s = None \<and> composed_rtl_invoke c' [] s' = None \<and> composed_ltr_invoke c'' [] s'' = None
   \<and> (composed_invoke (compose f gs) argv t = None) = (argv = [])
   \<and> (composed_rtl_invoke (compose_r f' gs') argv' t' = None) = (argv' = [])
   \<and> (composed_ltr_invoke (compose_l f'' gs'') argv'' t'' = None) = (argv'' = [])"
  by (simp add: composed_rtl_invoke_def composed_invoke_def composed_ltr_invoke_def
      compose_r_def compose_def compose_l_def split: list.splits prod.splits)


section \<open>A composition of one stage\<close>

text \<open>
  C7, as stated: for every callable \<open>f\<close> and every argument list valid for \<open>f\<close>, the
  composition of the single stage \<open>f\<close> behaves like \<open>f\<close>.  This fails for the empty
  argument list: a stage that is callable without arguments returns its value, the
  composition built from it has no call operator for an empty argument list.
\<close>

theorem single_stage_nullary_counterexample:
  "invoke_stage (nullary (42::int) :: (int, unit, unit, unit) stage) [] () = (Inr 42, nullary 42, ())
   \<and> composed_invoke (compose (nullary (42::int) :: (int, unit, unit, unit) stage) []) [] () = None
   \<and> composed_invoke (compose (nullary (42::int) :: (int, unit, unit, unit) stage) []) [] () \<noteq>
     (case invoke_stage (nullary 42) [] () of (r, f', s') \<Rightarrow> Some (r, compose f' [], s'))"
  by (simp add: nullary_def invoke_stage_function_object composed_invoke_def)

text \<open>
  C7, amended: for every callable \<open>f\<close> and every argument list \<open>arg, args...\<close> with at
  least one argument, the composition built from exactly the one stage \<open>f\<close> (by
  \<^verbatim>\<open>compose\<close>, \<^verbatim>\<open>compose_r\<close> or \<^verbatim>\<open>compose_l\<close>) behaves like calling \<open>f\<close> directly: same
  outcome, same program state, and the stored stage is \<open>f\<close> after that call.  With
  \<^verbatim>\<open>compose_r\<close> and \<^verbatim>\<open>compose_l\<close> a reference that \<open>f\<close> returns is returned as the
  reference it is, with \<^verbatim>\<open>compose\<close> the value is returned.
\<close>

theorem single_stage_identity:
  "composed_invoke (compose f []) (arg # args) s =
     (case invoke_stage f (arg # args) s of (r, f', s') \<Rightarrow> Some (r, compose f' [], s'))
   \<and> composed_rtl_invoke (compose_r f []) (arg # args) s =
     (case invoke_stage f (arg # args) s of
        (r, f', s') \<Rightarrow>
          Some (map_sum id (if returns_reference f then Reference else Prvalue) r,
                compose_r f' [], s'))
   \<and> composed_ltr_invoke (compose_l f []) (arg # args) s =
     (case invoke_stage f (arg # args) s of
        (r, f', s') \<Rightarrow>
          Some (map_sum id (if returns_reference f then Reference else Prvalue) r,
                compose_l f' [], s'))"
  by (simp add: composed_invoke_def composed_rtl_invoke_def composed_ltr_invoke_def
      compose_def compose_r_def compose_l_def tuple_call_def split: prod.splits sum.splits)


section \<open>Compositions of pure stages\<close>










section \<open>Recorded invocations\<close>

lemma traced_members_update:
  "(traced k f)\<lparr>members := m\<rparr> = traced k (f\<lparr>members := m\<rparr>)"
  by (simp add: traced_def)

lemma invoke_stage_traced:
  "invoke_stage (traced k f) argv (tr, s) =
     (case invoke_stage f argv s of
        (r, f', s') \<Rightarrow>
          (r, traced k f',
           (tr @ [\<lparr>stage_index = k, arguments = argv, state_before = s,
                   outcome = r, state_after = s'\<rparr>], s')))"
  by (simp add: invoke_stage_def traced_members_update split: prod.splits)
     (simp add: traced_def)

lemma traced_from_Nil [simp]: "traced_from k [] = []"
  by (simp add: traced_from_def)

lemma traced_from_Cons [simp]:
  "traced_from k (g # gs) = traced k g # traced_from (Suc k) gs"
  by (simp add: traced_from_def)

lemma length_traced_from [simp]: "length (traced_from k gs) = length gs"
  by (simp add: traced_from_def)

lemma nth_traced_from:
  "i < length gs \<Longrightarrow> traced_from k gs ! i = traced (k + i) (gs ! i)"
  by (simp add: traced_from_def nth_enumerate_eq)

lemma traced_from_update:
  "traced_from k (gs[i := g]) = (traced_from k gs)[i := traced (k + i) g]"
proof (induction gs arbitrary: k i)
  case Nil
  show ?case by simp
next
  case (Cons h gs)
  show ?case by (cases i) (simp_all add: Cons.IH)
qed

lemma tuple_call_traced:
  assumes "n < length tup"
  shows "tuple_call n (traced_from 0 tup) argv (tr, s) =
     (case tuple_call n tup argv s of
        (r, tup', s') \<Rightarrow>
          (r, traced_from 0 tup',
           (tr @ [\<lparr>stage_index = n, arguments = argv, state_before = s,
                   outcome = r, state_after = s'\<rparr>], s')))"
  using assms
  by (simp add: tuple_call_def nth_traced_from invoke_stage_traced traced_from_update
      split: prod.splits)

lemma chained_Cons:
  "chained (a # evs) \<longleftrightarrow>
     evs = [] \<or>
     (case outcome a of Inl e \<Rightarrow> False | Inr v \<Rightarrow> arguments (hd evs) = [v])
       \<and> state_after a = state_before (hd evs) \<and> chained evs"
  by (cases evs) (simp_all split: sum.splits)


lemma chained_butlast_returned:
  "chained evs \<Longrightarrow> ev \<in> set (butlast evs) \<Longrightarrow> \<exists>v. outcome ev = Inr v"
  by (induction evs rule: chained.induct) (auto split: sum.splits)

lemma returns_reference_traced [simp]: "returns_reference (traced k f) = returns_reference f"
  by (simp add: traced_def)


lemma tuple_exec_rtl2_traced:
  assumes "n < length tup"
  shows "\<exists>evs. tuple_exec_rtl2 n (traced_from 0 tup) arg args (tr, s) =
           (case tuple_exec_rtl2 n tup arg args s of
              (r, tup', s') \<Rightarrow> (r, traced_from 0 tup', (tr @ evs, s')))
         \<and> evs \<noteq> [] \<and> length evs \<le> Suc n
         \<and> map stage_index evs = rev [Suc n - length evs ..< Suc n]
         \<and> arguments (hd evs) = arg # args
         \<and> state_before (hd evs) = s
         \<and> outcome (last evs) = fst (tuple_exec_rtl2 n tup arg args s)
         \<and> state_after (last evs) = snd (snd (tuple_exec_rtl2 n tup arg args s))
         \<and> chained evs
         \<and> ((\<exists>v. fst (tuple_exec_rtl2 n tup arg args s) = Inr v) \<longrightarrow> length evs = Suc n)"
  using assms
proof (induction n arbitrary: tup arg args tr s)
  case 0
  obtain r tup' s' where c: "tuple_call 0 tup (arg # args) s = (r, tup', s')"
    by (cases "tuple_call 0 tup (arg # args) s") auto
  show ?case
    by (rule exI [of _ "[\<lparr>stage_index = 0, arguments = arg # args, state_before = s,
          outcome = r, state_after = s'\<rparr>]"])
       (simp add: tuple_call_traced [OF 0] c)
next
  case (Suc n)
  obtain r0 tup0 s0 where c: "tuple_call (Suc n) tup (arg # args) s = (r0, tup0, s0)"
    by (cases "tuple_call (Suc n) tup (arg # args) s") auto
  have l: "length tup0 = length tup" by (rule length_tuple_call [OF c])
  define ev where "ev = \<lparr>stage_index = Suc n, arguments = arg # args, state_before = s,
      outcome = r0, state_after = s0\<rparr>"
  have ct: "tuple_call (Suc n) (traced_from 0 tup) (arg # args) (tr, s) =
      (r0, traced_from 0 tup0, (tr @ [ev], s0))"
    using tuple_call_traced [OF Suc.prems, of "arg # args" tr s] c by (simp add: ev_def)
  show ?case
  proof (cases r0)
    case (Inl e)
    show ?thesis
      by (rule exI [of _ "[ev]"]) (simp add: ct c Inl, simp add: ev_def Inl)
  next
    case (Inr v)
    have n: "n < length tup0" using Suc.prems l by simp
    obtain evs where
      run: "tuple_exec_rtl2 n (traced_from 0 tup0) v [] (tr @ [ev], s0) =
           (case tuple_exec_rtl2 n tup0 v [] s0 of
              (r, tup', s') \<Rightarrow> (r, traced_from 0 tup', ((tr @ [ev]) @ evs, s')))"
      and ne: "evs \<noteq> []" and le: "length evs \<le> Suc n"
      and idx: "map stage_index evs = rev [Suc n - length evs ..< Suc n]"
      and arg1: "arguments (hd evs) = [v]"
      and st1: "state_before (hd evs) = s0"
      and lst: "outcome (last evs) = fst (tuple_exec_rtl2 n tup0 v [] s0)"
      and lst': "state_after (last evs) = snd (snd (tuple_exec_rtl2 n tup0 v [] s0))"
      and ch: "chained evs"
      and full: "(\<exists>w. fst (tuple_exec_rtl2 n tup0 v [] s0) = Inr w) \<longrightarrow> length evs = Suc n"
      using Suc.IH [OF n, of v "[]" "tr @ [ev]" s0] by blast
    have e: "tuple_exec_rtl2 (Suc n) tup arg args s = tuple_exec_rtl2 n tup0 v [] s0"
      using c Inr by simp
    have "Suc (Suc n) - length (ev # evs) = Suc n - length evs" by simp
    moreover have "[Suc n - length evs ..< Suc (Suc n)] = [Suc n - length evs ..< Suc n] @ [Suc n]"
      using le by simp
    moreover have "stage_index ev = Suc n" by (simp add: ev_def)
    ultimately have idx':
      "map stage_index (ev # evs) = rev [Suc (Suc n) - length (ev # evs) ..< Suc (Suc n)]"
      using idx by simp
    have ch': "chained (ev # evs)"
      using ch ne arg1 st1 Inr by (simp add: chained_Cons ev_def)
    show ?thesis
    proof (rule exI [of _ "ev # evs"], intro conjI)
      show "tuple_exec_rtl2 (Suc n) (traced_from 0 tup) arg args (tr, s) =
           (case tuple_exec_rtl2 (Suc n) tup arg args s of
              (r, tup', s') \<Rightarrow> (r, traced_from 0 tup', (tr @ ev # evs, s')))"
        using ct Inr run e by simp
      show "ev # evs \<noteq> []" by simp
      show "length (ev # evs) \<le> Suc (Suc n)" using le by simp
      show "map stage_index (ev # evs) =
          rev [Suc (Suc n) - length (ev # evs) ..< Suc (Suc n)]"
        by (rule idx')
      show "arguments (hd (ev # evs)) = arg # args" by (simp add: ev_def)
      show "state_before (hd (ev # evs)) = s" by (simp add: ev_def)
      show "outcome (last (ev # evs)) = fst (tuple_exec_rtl2 (Suc n) tup arg args s)"
        using ne lst e by simp
      show "state_after (last (ev # evs)) = snd (snd (tuple_exec_rtl2 (Suc n) tup arg args s))"
        using ne lst' e by simp
      show "chained (ev # evs)" by (rule ch')
      show "(\<exists>v. fst (tuple_exec_rtl2 (Suc n) tup arg args s) = Inr v) \<longrightarrow>
          length (ev # evs) = Suc (Suc n)"
        using full e by simp
    qed
  qed
qed



lemma compose_traced:
  "compose (traced 0 f) (traced_from 1 gs) = \<lparr>composed.fs = traced_from 0 (f # gs)\<rparr>"
  by (simp add: compose_def)


lemma composed_invoke_traced:
  obtains evs r tup' s' where
    "composed_invoke (compose f gs) (arg # args) s = Some (r, \<lparr>composed.fs = tup'\<rparr>, s')"
    "composed_invoke (compose (traced 0 f) (traced_from 1 gs)) (arg # args) (tr, s) =
       Some (r, \<lparr>composed.fs = traced_from 0 tup'\<rparr>, (tr @ evs, s'))"
    "evs \<noteq> []" "length evs \<le> Suc (length gs)"
    "map stage_index evs = rev [Suc (length gs) - length evs ..< Suc (length gs)]"
    "arguments (hd evs) = arg # args" "state_before (hd evs) = s"
    "outcome (last evs) = r" "state_after (last evs) = s'" "chained evs"
    "(\<exists>v. r = Inr v) \<longrightarrow> length evs = Suc (length gs)"
proof -
  obtain r tup' s' where x: "tuple_exec_rtl2 (length gs) (f # gs) arg args s = (r, tup', s')"
    by (cases "tuple_exec_rtl2 (length gs) (f # gs) arg args s") auto
  have "length gs < length (f # gs)" by simp
  from tuple_exec_rtl2_traced [OF this, of arg args tr s] x
  obtain evs where
    run: "tuple_exec_rtl2 (length gs) (traced_from 0 (f # gs)) arg args (tr, s) =
        (r, traced_from 0 tup', (tr @ evs, s'))"
    and props: "evs \<noteq> []" "length evs \<le> Suc (length gs)"
      "map stage_index evs = rev [Suc (length gs) - length evs ..< Suc (length gs)]"
      "arguments (hd evs) = arg # args" "state_before (hd evs) = s"
      "outcome (last evs) = r" "state_after (last evs) = s'" "chained evs"
      "(\<exists>v. r = Inr v) \<longrightarrow> length evs = Suc (length gs)"
    by auto
  have a: "composed_invoke (compose f gs) (arg # args) s = Some (r, \<lparr>composed.fs = tup'\<rparr>, s')"
    using x by (simp add: composed_invoke_def compose_def)
  have b: "composed_invoke (compose (traced 0 f) (traced_from 1 gs)) (arg # args) (tr, s) =
       Some (r, \<lparr>composed.fs = traced_from 0 tup'\<rparr>, (tr @ evs, s'))"
    unfolding compose_traced using run by (simp add: composed_invoke_def)
  from that [OF a b props] show thesis .
qed



text \<open>
  C5: a failing stage ends the invocation with its own failure.  The stages of
  \<^verbatim>\<open>compose(f, gs...)\<close> are recorded.  In every invocation the log grows, the outcome of
  the invocation is the outcome of the last stage call and the program state is the one
  that call left: the combinator has no failure of its own and passes a failure on as it
  is.  If some stage call of the invocation fails with \<open>e\<close> (the event \<open>ev\<close>), then the
  invocation yields exactly \<open>Inl e\<close>; that event is the last of the log, so nothing ran
  after it; the stages that ran are those from the last-declared one down to the failing
  one, each once, and the stages declared before the failing one did not run.  The log
  is chained: every earlier call returned a value, which went to the next call only.
  The invocation of the unrecorded stages has the same outcome and program state.  The
  outcome \<open>Inl e\<close> carries no intermediate value.
\<close>

theorem stage_failure_propagates:
  assumes run: "composed_invoke (compose (traced 0 f) (traced_from 1 gs)) (arg # args) (tr, s) =
      Some (r, c', (tr', s'))"
  shows "take (length tr) tr' = tr \<and> length tr < length tr'
     \<and> outcome (last tr') = r
     \<and> state_after (last tr') = s'
     \<and> chained (drop (length tr) tr')
     \<and> (\<forall>ev \<in> set (drop (length tr) tr'). \<forall>e. outcome ev = Inl e \<longrightarrow>
          r = Inl e \<and> last tr' = ev
          \<and> map stage_index (drop (length tr) tr') = rev [stage_index ev ..< Suc (length gs)])
     \<and> (\<exists>tup'. c' = \<lparr>composed.fs = traced_from 0 tup'\<rparr>
          \<and> composed_invoke (compose f gs) (arg # args) s = Some (r, \<lparr>composed.fs = tup'\<rparr>, s'))"
proof -
  obtain evs r0 tup0 s0 where
    plain: "composed_invoke (compose f gs) (arg # args) s = Some (r0, \<lparr>composed.fs = tup0\<rparr>, s0)"
    and rec: "composed_invoke (compose (traced 0 f) (traced_from 1 gs)) (arg # args) (tr, s) =
       Some (r0, \<lparr>composed.fs = traced_from 0 tup0\<rparr>, (tr @ evs, s0))"
    and ne: "evs \<noteq> []" and le: "length evs \<le> Suc (length gs)"
    and idx: "map stage_index evs = rev [Suc (length gs) - length evs ..< Suc (length gs)]"
    and lst: "outcome (last evs) = r0" and lst': "state_after (last evs) = s0"
    and ch: "chained evs"
    by (rule composed_invoke_traced [of f gs arg args s tr])
  from run rec have eqs: "r = r0" "c' = \<lparr>composed.fs = traced_from 0 tup0\<rparr>"
    "tr' = tr @ evs" "s' = s0" by simp_all
  have failing: "r0 = Inl e \<and> last evs = ev
      \<and> map stage_index evs = rev [stage_index ev ..< Suc (length gs)]"
    if mem: "ev \<in> set evs" and fail: "outcome ev = Inl e" for ev e
  proof -
    have "ev \<notin> set (butlast evs)"
      using chained_butlast_returned [OF ch, of ev] fail by auto
    moreover have "evs = butlast evs @ [last evs]" using ne by simp
    ultimately have last: "last evs = ev"
      using mem by (metis Un_iff empty_iff empty_set set_ConsD set_append)
    have "stage_index ev = last (map stage_index evs)"
      using ne last by (simp add: last_map)
    also have "\<dots> = Suc (length gs) - length evs"
    proof -
      have "Suc (length gs) - length evs < Suc (length gs)"
        using ne by (cases evs) simp_all
      then have "[Suc (length gs) - length evs ..< Suc (length gs)] =
          (Suc (length gs) - length evs) # [Suc (Suc (length gs) - length evs) ..< Suc (length gs)]"
        by (rule upt_conv_Cons)
      then show ?thesis unfolding idx by simp
    qed
    finally have k: "stage_index ev = Suc (length gs) - length evs" .
    show ?thesis using last lst fail idx k by simp
  qed
  have len: "length tr < length tr'" using eqs ne by simp
  show ?thesis
    using eqs lst lst' ne ch plain failing len by simp
qed

text \<open>
  The hypotheses of C5 hold for \<^verbatim>\<open>compose(negate, throwing, square)(3)\<close>: \<open>square\<close> runs,
  the second stage throws, \<open>negate\<close> does not run.
\<close>

theorem stage_failure_propagates_witness:
  "composed_invoke
     (compose (traced 0 negate_int)
        (traced_from 1 [throwing ''boom'', square_int :: (int, unit, string, unit) stage]))
     [3] ([], ()) =
   Some (Inl ''boom'',
     compose (traced 0 negate_int) (traced_from 1 [throwing ''boom'', square_int]),
     ([\<lparr>stage_index = 2, arguments = [3], state_before = (), outcome = Inr 9, state_after = ()\<rparr>,
       \<lparr>stage_index = 1, arguments = [9], state_before = (), outcome = Inl ''boom'',
          state_after = ()\<rparr>], ()))
   \<and> \<lparr>stage_index = 1, arguments = [9::int], state_before = (), outcome = Inl ''boom'' :: string + int,
          state_after = ()\<rparr>
      \<in> set (drop (length ([] :: (int, unit, string) event list))
         [\<lparr>stage_index = 2, arguments = [3], state_before = (), outcome = Inr 9, state_after = ()\<rparr>,
          \<lparr>stage_index = 1, arguments = [9], state_before = (), outcome = Inl ''boom'',
            state_after = ()\<rparr>])
   \<and> map stage_index (drop (length ([] :: (int, unit, string) event list))
       [\<lparr>stage_index = 2, arguments = [3::int], state_before = (), outcome = Inr 9 :: string + int,
          state_after = ()\<rparr>,
        \<lparr>stage_index = 1, arguments = [9], state_before = (), outcome = Inl ''boom'',
          state_after = ()\<rparr>]) =
       rev [stage_index \<lparr>stage_index = 1, arguments = [9::int], state_before = (),
              outcome = Inl ''boom'' :: string + int, state_after = ()\<rparr> ..<
            Suc (length [throwing ''boom'', square_int :: (int, unit, string, unit) stage])]
   \<and> (\<exists>tup'. composed_invoke
         (compose negate_int [throwing ''boom'', square_int :: (int, unit, string, unit) stage])
         [3] () = Some (Inl ''boom'', \<lparr>composed.fs = tup'\<rparr>, ()))"
proof -
  let ?e2 = "\<lparr>stage_index = 2, arguments = [3::int], state_before = (),
      outcome = Inr 9 :: string + int, state_after = ()\<rparr>"
  let ?e1 = "\<lparr>stage_index = 1, arguments = [9::int], state_before = (),
      outcome = Inl ''boom'' :: string + int, state_after = ()\<rparr>"
  let ?nil = "[] :: (int, unit, string) event list"
  let ?gs = "[throwing ''boom'', square_int :: (int, unit, string, unit) stage]"
  let ?c = "compose (traced 0 negate_int) (traced_from 1 ?gs)"
  have run: "composed_invoke ?c [3] (?nil, ()) = Some (Inl ''boom'', ?c, ([?e2, ?e1], ()))"
    by (simp add: run_simps negate_int_def square_int_def throwing_def)
  have mem: "?e1 \<in> set (drop (length ?nil) [?e2, ?e1])"
    by simp
  have fail: "outcome ?e1 = Inl ''boom''"
    by simp
  note c = stage_failure_propagates [OF run]
  note c6 = c [THEN conjunct2, THEN conjunct2, THEN conjunct2, THEN conjunct2, THEN conjunct2]
  have idx: "map stage_index (drop (length ?nil) [?e2, ?e1]) =
      rev [stage_index ?e1 ..< Suc (length ?gs)]"
    using c6 [THEN conjunct1, rule_format, OF mem fail] by (elim conjE)
  have plain: "\<exists>tup'. composed_invoke (compose negate_int ?gs) [3] () =
      Some (Inl ''boom'', \<lparr>composed.fs = tup'\<rparr>, ())"
    using c6 [THEN conjunct2] by blast
  from run mem idx plain show ?thesis
    by (intro conjI) assumption+
qed




section \<open>Construction\<close>

text \<open>
  C9: construction is lazy.  \<^verbatim>\<open>compose\<close>, \<^verbatim>\<open>compose_r\<close> and \<^verbatim>\<open>compose_l\<close> store the stages
  they are given, in declaration order and in the state they were given in.  None of them
  calls a stage: a construction is a function of the stage objects alone, it neither
  reads nor changes the program state, and the members of every stored stage are those
  of the stage supplied.  The stages run in the invocation: when the composition built
  from recorded stages is invoked, the log is extended, beginning with the call of the
  terminal stage on the arguments and in the program state of the invocation.
\<close>

theorem construction_is_lazy:
  "composed.fs (compose f gs) = f # gs
   \<and> composed_rtl.fs (compose_r f gs) = f # gs
   \<and> composed_ltr.fs (compose_l f gs) = f # gs
   \<and> (\<exists>r c' ev evs s'.
        composed_invoke (compose (traced 0 f) (traced_from 1 gs)) (arg # args) (tr, s) =
          Some (r, c', (tr @ ev # evs, s'))
        \<and> stage_index ev = length gs \<and> arguments ev = arg # args \<and> state_before ev = s)"
proof -
  obtain evs r tup' s' where
    rec: "composed_invoke (compose (traced 0 f) (traced_from 1 gs)) (arg # args) (tr, s) =
       Some (r, \<lparr>composed.fs = traced_from 0 tup'\<rparr>, (tr @ evs, s'))"
    and ne: "evs \<noteq> []" and le: "length evs \<le> Suc (length gs)"
    and idx: "map stage_index evs = rev [Suc (length gs) - length evs ..< Suc (length gs)]"
    and hd: "arguments (hd evs) = arg # args" "state_before (hd evs) = s"
    by (rule composed_invoke_traced [of f gs arg args s tr])
  from ne obtain ev evs' where evs: "evs = ev # evs'" by (cases evs) auto
  have "Suc (length gs) - length evs \<le> length gs" using evs by simp
  then have "[Suc (length gs) - length evs ..< Suc (length gs)] =
      [Suc (length gs) - length evs ..< length gs] @ [length gs]"
    by simp
  then have "map stage_index evs = length gs # rev [Suc (length gs) - length evs ..< length gs]"
    unfolding idx by simp
  then have first: "stage_index ev = length gs" using evs by simp
  have "composed_invoke (compose (traced 0 f) (traced_from 1 gs)) (arg # args) (tr, s) =
          Some (r, \<lparr>composed.fs = traced_from 0 tup'\<rparr>, (tr @ ev # evs', s'))
        \<and> stage_index ev = length gs \<and> arguments ev = arg # args \<and> state_before ev = s"
    using rec evs first hd by simp
  then have "\<exists>r c' ev evs s'.
        composed_invoke (compose (traced 0 f) (traced_from 1 gs)) (arg # args) (tr, s) =
          Some (r, c', (tr @ ev # evs, s'))
        \<and> stage_index ev = length gs \<and> arguments ev = arg # args \<and> state_before ev = s"
    by blast
  then show ?thesis
    by (simp add: compose_def compose_r_def compose_l_def)
qed

end
